theory Spec2Isabelle
  imports
    Complex_Main
    "HOL-Library.Char_ord"
    "HOL-Library.List_Lexorder"
    "HOL-Library.Product_Lexorder"
begin

section \<open>The data generator and the reshaping pipeline of app.py\<close>

text \<open>
  The program builds a synthetic table of daily city metrics (\<open>make_data\<close>) and then
  filters, smooths and pivots it at the top level of the script.  The embedding follows
  app.py line by line.  Conventions:
  \<^item> a Python float is a \<open>real\<close> (no rounding error, no NaN); a missing value that pandas
    writes as NaN or NaT is \<open>None\<close> of an option type;
  \<^item> a normalised pandas Timestamp (midnight) is the number of its day since 1970-01-01,
    an unbounded \<open>int\<close>; the wall clock is a number of nanoseconds since then;
  \<^item> the numpy random generator is a parameter: a record of its three operations used
    by the program, over an arbitrary generator state;
  \<^item> a DataFrame is the list of its rows, a row is a record of its columns, and the row
    labels of a frame are the positions in that list;
  \<^item> the library calls are modelled where they return.  numpy refuses a negative seed and
    pandas refuses a Timedelta or a Timestamp beyond its 64-bit count of nanoseconds; these
    refusals are not branches of the definitions, and \<open>accepted\<close> states the arguments
    that are within the limits.
\<close>

subsection \<open>Dates\<close>

type_synonym day = int

definition ns_per_day :: int where
  "ns_per_day = 86400000000000"

text \<open>\<open>pd.Timestamp.today().normalize()\<close>: the wall clock cut down to its day.\<close>

definition normalize :: "int \<Rightarrow> day" where
  "normalize now = now div ns_per_day"

text \<open>\<open>pd.Timedelta(days=k)\<close>, in days.\<close>

definition Timedelta :: "int \<Rightarrow> int" where
  "Timedelta k = k"

text \<open>\<open>pd.date_range(start, end, freq="D")\<close>: every day from start to end, none when
  start is after end.\<close>

definition date_range :: "day \<Rightarrow> day \<Rightarrow> day list" where
  "date_range start end = (if end < start then [] else map (\<lambda>i. start + int i) [0..<nat (end - start + 1)])"

text \<open>\<open>.dt.day_name()\<close>: day 0 (1970-01-01) was a Thursday.\<close>

definition day_names :: "string list" where
  "day_names = [''Monday'', ''Tuesday'', ''Wednesday'', ''Thursday'', ''Friday'', ''Saturday'', ''Sunday'']"

definition day_name :: "day \<Rightarrow> string" where
  "day_name d = day_names ! nat ((d + 3) mod 7)"

subsection \<open>Rows\<close>

record daily_record =
  date :: day
  city :: string
  orders :: int
  revenue :: real
  lat :: real
  lon :: real
  weekday :: string

record geo_point =
  geo_city :: string
  geo_lat :: real
  geo_lon :: real
  volume :: real

datatype error = KeyError string

subsection \<open>The random generator and the numpy helpers\<close>

record 'g generator =
  default_rng :: "int \<Rightarrow> 'g"
  integers :: "int \<Rightarrow> int \<Rightarrow> 'g \<Rightarrow> int \<times> 'g"
  normal :: "real \<Rightarrow> real \<Rightarrow> 'g \<Rightarrow> real \<times> 'g"

text \<open>\<open>rng.normal(loc, scale, size=n)\<close>: n draws, one after the other.\<close>

fun normal_size :: "'g generator \<Rightarrow> real \<Rightarrow> real \<Rightarrow> nat \<Rightarrow> 'g \<Rightarrow> real list \<times> 'g" where
  "normal_size G loc scale 0 g = ([], g)"
| "normal_size G loc scale (Suc n) g =
     (case normal G loc scale g of (x, g1) \<Rightarrow>
        (case normal_size G loc scale n g1 of (xs, g2) \<Rightarrow> (x # xs, g2)))"

text \<open>\<open>np.linspace(a, b, n)\<close>.\<close>

definition linspace :: "real \<Rightarrow> real \<Rightarrow> nat \<Rightarrow> real list" where
  "linspace a b n =
     (if n = 0 then [] else if n = 1 then [a]
      else map (\<lambda>i. a + real i * ((b - a) / real (n - 1))) [0..<n])"

text \<open>\<open>np.clip(x, lo, None)\<close>.\<close>

definition clip_min :: "real \<Rightarrow> real \<Rightarrow> real" where
  "clip_min x lo = (if x < lo then lo else x)"

text \<open>\<open>.round().astype(int)\<close>: numpy rounds a half to the even neighbour.\<close>

definition round_half_even :: "real \<Rightarrow> int" where
  "round_half_even x =
     (let f = \<lfloor>x\<rfloor>; d = x - of_int f
      in if d < 1 / 2 then f else if 1 / 2 < d then f + 1 else if even f then f else f + 1)"

subsection \<open>make_data\<close>

definition cities :: "(string \<times> real \<times> real) list" where
  "cities =
     [(''Pune'', 18.5204, 73.8567),
      (''Mumbai'', 19.0760, 72.8777),
      (''Delhi'', 28.6139, 77.2090),
      (''Bengaluru'', 12.9716, 77.5946)]"

definition prices :: "(string \<times> real) list" where
  "prices = [(''Pune'', 350.0), (''Mumbai'', 420.0), (''Delhi'', 390.0), (''Bengaluru'', 410.0)]"

text \<open>The keys of the dictionary \<open>cities\<close>, in its order.\<close>

definition city_names :: "string list" where
  "city_names = map fst cities"

text \<open>The subscript \<open>{...}[city]\<close> raises KeyError on a name that is not a key.\<close>

definition price_of :: "string \<Rightarrow> error + real" where
  "price_of c = (case map_of prices c of None \<Rightarrow> Inl (KeyError c) | Some p \<Rightarrow> Inr p)"

type_synonym row = "day \<times> string \<times> int \<times> real \<times> real \<times> real"

text \<open>The body of the first loop for one city (lines 25 to 37).\<close>

definition city_rows :: "'g generator \<Rightarrow> day list \<Rightarrow> string \<times> real \<times> real \<Rightarrow> 'g \<Rightarrow> error + (row list \<times> 'g)" where
  "city_rows G dates c g =
     (case c of (cname, clat, clon) \<Rightarrow>
      (case integers G 80 200 g of (base_orders, g1) \<Rightarrow>
      (case normal_size G 0 20 (length dates) g1 of (noise, g2) \<Rightarrow>
       let trend = linspace (- 10) 10 (length dates);
           orders = map (\<lambda>(e, t). round_half_even (clip_min (of_int base_orders + e + t) 10)) (zip noise trend)
       in (case price_of cname of
             Inl e \<Rightarrow> Inl e
           | Inr price \<Rightarrow>
              (case normal_size G 0 15 (length dates) g2 of (pnoise, g3) \<Rightarrow>
               let revenue = map (\<lambda>(n, e). of_int n * (price + e)) (zip orders pnoise)
               in Inr (map (\<lambda>(d, n, r). (d, cname, n, r, clat, clon)) (zip dates (zip orders revenue)), g3))))))"

fun rows_loop :: "'g generator \<Rightarrow> day list \<Rightarrow> (string \<times> real \<times> real) list \<Rightarrow> 'g \<Rightarrow> error + (row list \<times> 'g)" where
  "rows_loop G dates [] g = Inr ([], g)"
| "rows_loop G dates (c # cs) g =
     (case city_rows G dates c g of
        Inl e \<Rightarrow> Inl e
      | Inr (rs, g1) \<Rightarrow>
         (case rows_loop G dates cs g1 of
            Inl e \<Rightarrow> Inl e
          | Inr (rs', g2) \<Rightarrow> Inr (rs @ rs', g2)))"

text \<open>The inner loop of the point cloud: n points around one centre (lines 47 to 52).\<close>

fun city_pts :: "'g generator \<Rightarrow> string \<times> real \<times> real \<Rightarrow> nat \<Rightarrow> 'g \<Rightarrow> geo_point list \<times> 'g" where
  "city_pts G c 0 g = ([], g)"
| "city_pts G c (Suc n) g =
     (case c of (cname, clat, clon) \<Rightarrow>
      (case normal G 0 0.01 g of (j1, g1) \<Rightarrow>
      (case normal G 0 0.01 g1 of (j2, g2) \<Rightarrow>
      (case normal G 100 40 g2 of (v, g3) \<Rightarrow>
      (case city_pts G c n g3 of (ps, g4) \<Rightarrow>
         (\<lparr>geo_city = cname, geo_lat = clat + j1, geo_lon = clon + j2, volume = max 0 v\<rparr> # ps, g4))))))"

fun pts_loop :: "'g generator \<Rightarrow> (string \<times> real \<times> real) list \<Rightarrow> 'g \<Rightarrow> geo_point list \<times> 'g" where
  "pts_loop G [] g = ([], g)"
| "pts_loop G (c # cs) g =
     (case city_pts G c 400 g of (ps, g1) \<Rightarrow>
      (case pts_loop G cs g1 of (ps', g2) \<Rightarrow> (ps @ ps', g2)))"

definition mk_record :: "row \<Rightarrow> daily_record" where
  "mk_record r =
     (case r of (d, c, n, rv, la, lo) \<Rightarrow>
        \<lparr>date = d, city = c, orders = n, revenue = rv, lat = la, lon = lo, weekday = day_name d\<rparr>)"

text \<open>Lines 12 and 13: the days of the table; \<open>now\<close> is what the wall clock reads.\<close>

definition make_dates :: "int \<Rightarrow> int \<Rightarrow> day list" where
  "make_dates now days = (let end = normalize now in date_range (end - Timedelta (days - 1)) end)"

text \<open>The function itself.\<close>

definition make_data :: "'g generator \<Rightarrow> int \<Rightarrow> int \<Rightarrow> int \<Rightarrow> error + (daily_record list \<times> geo_point list)" where
  "make_data G now seed days =
     (let rng = default_rng G seed;
          dates = make_dates now days
      in (case rows_loop G dates cities rng of
            Inl e \<Rightarrow> Inl e
          | Inr (rows, rng1) \<Rightarrow>
             (case pts_loop G cities rng1 of (pts, rng2) \<Rightarrow> Inr (map mk_record rows, pts))))"

text \<open>
  The decorator \<open>st.cache_data\<close>: the results are kept under the arguments of the call,
  and a call whose arguments are in the cache returns the stored result.\<close>

type_synonym cache = "int \<times> int \<rightharpoonup> daily_record list \<times> geo_point list"

definition make_data_cached ::
  "'g generator \<Rightarrow> cache \<Rightarrow> int \<Rightarrow> int \<Rightarrow> int \<Rightarrow> (error + (daily_record list \<times> geo_point list)) \<times> cache" where
  "make_data_cached G ch now seed days =
     (case ch (seed, days) of
        Some r \<Rightarrow> (Inr r, ch)
      | None \<Rightarrow>
         (case make_data G now seed days of
            Inl e \<Rightarrow> (Inl e, ch)
          | Inr r \<Rightarrow> (Inr r, ch((seed, days) \<mapsto> r))))"

subsection \<open>The arguments that the library calls accept\<close>

text \<open>
  \<open>np.random.default_rng\<close> (line 11) raises on a negative seed.  pandas counts time in
  nanoseconds in 64 bits, so \<open>pd.Timedelta(days=k)\<close> and a midnight Timestamp exist for
  at most 106751 days to either side of zero and of 1970-01-01; lines 12 and 13 raise when
  the clock, its day, \<open>days - 1\<close> or the first day of the range is beyond that.\<close>

definition pandas_max_days :: int where
  "pandas_max_days = 106751"

definition accepted :: "int \<Rightarrow> int \<Rightarrow> int \<Rightarrow> bool" where
  "accepted now seed days \<longleftrightarrow>
     0 \<le> seed \<and>
     \<bar>now\<bar> < 2 ^ 63 \<and>
     \<bar>normalize now\<bar> \<le> pandas_max_days \<and>
     \<bar>days - 1\<bar> \<le> pandas_max_days \<and>
     \<bar>normalize now - Timedelta (days - 1)\<bar> \<le> pandas_max_days"

subsection \<open>The view: filtering (lines 69 to 71)\<close>

text \<open>The select box offers the two numeric columns.\<close>

datatype metric = Orders | Revenue

definition metric_value :: "metric \<Rightarrow> daily_record \<Rightarrow> real" where
  "metric_value m r = (case m of Orders \<Rightarrow> of_int (orders r) | Revenue \<Rightarrow> revenue r)"

text \<open>\<open>df[df["city"].isin(city_filter)]\<close>.\<close>

definition isin :: "string list \<Rightarrow> daily_record list \<Rightarrow> daily_record list" where
  "isin city_filter df = filter (\<lambda>r. city r \<in> set city_filter) df"

text \<open>\<open>df["date"].max()\<close>: NaT (None) on a frame without rows.\<close>

definition date_max :: "daily_record list \<Rightarrow> day option" where
  "date_max df = (case map date df of [] \<Rightarrow> None | d # ds \<Rightarrow> Some (fold max ds d))"

text \<open>NaT minus a Timedelta is NaT.\<close>

definition cutoff :: "daily_record list \<Rightarrow> int \<Rightarrow> day option" where
  "cutoff df days_back =
     (case date_max df of None \<Rightarrow> None | Some m \<Rightarrow> Some (m - Timedelta (days_back - 1)))"

text \<open>\<open>df[df["date"] >= cutoff]\<close>: a comparison with NaT is false.\<close>

definition from_cutoff :: "day option \<Rightarrow> daily_record list \<Rightarrow> daily_record list" where
  "from_cutoff c df = filter (\<lambda>r. case c of None \<Rightarrow> False | Some c' \<Rightarrow> c' \<le> date r) df"

definition df_view :: "daily_record list \<Rightarrow> string list \<Rightarrow> int \<Rightarrow> daily_record list" where
  "df_view df city_filter days_back =
     (let v = isin city_filter df in from_cutoff (cutoff v days_back) v)"

subsection \<open>The smoothed column (lines 74 to 80)\<close>

text \<open>\<open>s.rolling(w, min_periods=1).mean()\<close>: at each position the mean of the last w
  values up to it, of all of them where there are fewer.\<close>

definition rolling_mean :: "nat \<Rightarrow> real list \<Rightarrow> real list" where
  "rolling_mean w xs =
     map (\<lambda>i. let win = drop (Suc i - w) (take (Suc i) xs) in sum_list win / real (length win))
       [0..<length xs]"

text \<open>\<open>sort_values(["city", "date"])\<close>, on the rows with their labels; rows with equal
  keys keep their order.\<close>

definition sort_values :: "(nat \<times> daily_record) list \<Rightarrow> (nat \<times> daily_record) list" where
  "sort_values f = sort_key (\<lambda>(i, r). (city r, date r)) f"

text \<open>\<open>groupby("city")[metric].transform(fn)\<close>: the function is applied to the values of
  each group, and each result keeps the label of its row.\<close>

definition get_group :: "string \<Rightarrow> (nat \<times> daily_record) list \<Rightarrow> (nat \<times> daily_record) list" where
  "get_group c f = filter (\<lambda>(i, r). city r = c) f"

definition groupby_transform ::
  "metric \<Rightarrow> (real list \<Rightarrow> real list) \<Rightarrow> (nat \<times> daily_record) list \<Rightarrow> (nat \<times> real) list" where
  "groupby_transform m fn f =
     concat (map (\<lambda>c. let grp = get_group c f
                        in zip (map fst grp) (fn (map (\<lambda>(i, r). metric_value m r) grp)))
               (remdups (map (\<lambda>(i, r). city r) f)))"

text \<open>The assignment \<open>df_view["smoothed"] = ...\<close> aligns the values on the labels; a label
  without a value gets NaN.\<close>

definition smoothed_column :: "metric \<Rightarrow> daily_record list \<Rightarrow> real option list" where
  "smoothed_column m v =
     (let s = groupby_transform m (rolling_mean 7) (sort_values (enumerate 0 v))
      in map (\<lambda>i. map_of s i) [0..<length v])"

text \<open>The group of one city in that computation: its rows of the frame with their
  labels, in the order of the sorted frame.\<close>

definition city_series :: "string \<Rightarrow> daily_record list \<Rightarrow> (nat \<times> daily_record) list" where
  "city_series c v = get_group c (sort_values (enumerate 0 v))"

subsection \<open>The pivot (lines 93 to 96)\<close>

record wide_table =
  wcolumns :: "string list"
  wrows :: "(day \<times> real option list) list"

text \<open>\<open>pivot_table(index="date", columns="city", values=metric, aggfunc="sum")\<close>: one row
  for each date and one column for each city of the frame, both in ascending order; a cell
  is the sum over the rows of the frame with that date and city, and NaN where there is
  none.\<close>

definition agg_sum :: "metric \<Rightarrow> daily_record list \<Rightarrow> day \<Rightarrow> string \<Rightarrow> real option" where
  "agg_sum m v d c =
     (let vs = map (metric_value m) (filter (\<lambda>r. date r = d \<and> city r = c) v)
      in if vs = [] then None else Some (sum_list vs))"

definition pivot_table :: "metric \<Rightarrow> daily_record list \<Rightarrow> wide_table" where
  "pivot_table m v =
     (let cols = sort (remdups (map city v))
      in \<lparr>wcolumns = cols,
          wrows = map (\<lambda>d. (d, map (\<lambda>c. agg_sum m v d c) cols)) (sort (remdups (map date v)))\<rparr>)"

definition sort_index :: "wide_table \<Rightarrow> wide_table" where
  "sort_index t = t\<lparr>wrows := sort_key fst (wrows t)\<rparr>"

text \<open>Reading a cell of a wide table by its labels: None where the table has no such row
  or column, \<open>Some None\<close> for a cell that holds NaN.\<close>

definition cell :: "wide_table \<Rightarrow> day \<Rightarrow> string \<Rightarrow> real option option" where
  "cell t d c =
     (case map_of (wrows t) d of
        None \<Rightarrow> None
      | Some vs \<Rightarrow> map_of (zip (wcolumns t) vs) c)"

subsection \<open>The script from line 69 on\<close>

record view =
  view_rows :: "daily_record list"
  smoothed :: "real option list option"
  pivot :: wide_table
  alt_value :: "real option list"

text \<open>
  \<open>smoothed\<close> is the column of that name, which exists only when the box is ticked;
  \<open>alt_value\<close> is the column \<open>value\<close> of \<open>alt_df\<close> (lines 123 to 125), the data of the
  Altair chart.\<close>

definition shape :: "daily_record list \<Rightarrow> string list \<Rightarrow> metric \<Rightarrow> int \<Rightarrow> bool \<Rightarrow> view" where
  "shape df city_filter m days_back smooth =
     (let v = df_view df city_filter days_back;
          sm = (if smooth then Some (smoothed_column m v) else None)
      in \<lparr>view_rows = v,
          smoothed = sm,
          pivot = sort_index (pivot_table m v),
          alt_value = (case sm of Some s \<Rightarrow> s | None \<Rightarrow> map (\<lambda>r. Some (metric_value m r)) v)\<rparr>)"

subsection \<open>A small table to run the view on\<close>

text \<open>Two cities whose dates differ, one date of Pune twice, and days on which a city
  has no row.\<close>

definition example_df :: "daily_record list" where
  "example_df = map mk_record
     [(0, ''Pune'', 100, 35000, 18.5204, 73.8567),
      (1, ''Pune'', 110, 38500, 18.5204, 73.8567),
      (2, ''Pune'', 120, 42000, 18.5204, 73.8567),
      (2, ''Pune'', 30, 10500, 18.5204, 73.8567),
      (2, ''Delhi'', 90, 35100, 28.6139, 77.2090),
      (4, ''Delhi'', 95, 37050, 28.6139, 77.2090)]"

text \<open>Eight days of one city.\<close>

definition week_df :: "daily_record list" where
  "week_df = map mk_record
     [(0, ''Pune'', 100, 35000, 18.5204, 73.8567),
      (1, ''Pune'', 110, 38500, 18.5204, 73.8567),
      (2, ''Pune'', 120, 42000, 18.5204, 73.8567),
      (3, ''Pune'', 130, 45500, 18.5204, 73.8567),
      (4, ''Pune'', 140, 49000, 18.5204, 73.8567),
      (5, ''Pune'', 150, 52500, 18.5204, 73.8567),
      (6, ''Pune'', 160, 56000, 18.5204, 73.8567),
      (7, ''Pune'', 170, 59500, 18.5204, 73.8567)]"

subsection \<open>A small generator to run the model on\<close>

text \<open>The state is a counter; the draws walk through a few fixed offsets.\<close>

definition toy_rng :: "int generator" where
  "toy_rng =
     \<lparr>default_rng = (\<lambda>seed. seed),
      integers = (\<lambda>lo hi g. (lo + g mod (hi - lo), g + 1)),
      normal = (\<lambda>loc scale g. (loc + scale * (of_int (g mod 5) - 2) / 2, g + 1))\<rparr>"

section \<open>Properties of the generator\<close>

subsection \<open>What every call returns\<close>

lemma normal_size_length: "length (fst (normal_size G l s n g)) = n"
  by (induction n arbitrary: g) (simp_all add: split_beta)

lemma linspace_length: "length (linspace a b n) = n"
  by (simp add: linspace_def)

lemma round_half_even_ge: "of_int k \<le> x \<Longrightarrow> k \<le> round_half_even x"
proof -
  assume "of_int k \<le> x"
  then have "k \<le> \<lfloor>x\<rfloor>" by (simp add: le_floor_iff)
  then show ?thesis by (simp add: round_half_even_def Let_def)
qed

lemma clip_min_ge: "lo \<le> clip_min x lo"
  by (simp add: clip_min_def)

lemma city_pts_length: "length (fst (city_pts G c n g)) = n"
  by (induction n arbitrary: g) (simp_all add: split_beta)

lemma pts_loop_length: "length (fst (pts_loop G cs g)) = 400 * length cs"
proof (induction cs arbitrary: g)
  case Nil
  then show ?case by simp
next
  case (Cons c cs)
  show ?case
    using Cons.IH city_pts_length [of G c 400 g]
    by (simp add: split_beta del: city_pts.simps)
qed

lemma city_rows_ok:
  assumes "map_of prices (fst c) = Some p"
  shows "\<exists>rs g'. city_rows G dates c g = Inr (rs, g') \<and>
           map (\<lambda>r. (city r, date r)) (map mk_record rs) = map (\<lambda>d. (fst c, d)) dates \<and>
           (\<forall>r \<in> set (map mk_record rs). 10 \<le> orders r)"
proof -
  obtain cname clat clon where c: "c = (cname, clat, clon)" by (cases c) auto
  obtain b g1 where b: "integers G 80 200 g = (b, g1)" by (cases "integers G 80 200 g")
  obtain noise g2 where n: "normal_size G 0 20 (length dates) g1 = (noise, g2)"
    by (cases "normal_size G 0 20 (length dates) g1")
  obtain pnoise g3 where pn: "normal_size G 0 15 (length dates) g2 = (pnoise, g3)"
    by (cases "normal_size G 0 15 (length dates) g2")
  have ln: "length noise = length dates"
    using normal_size_length [of G 0 20 "length dates" g1] n by simp
  have lp: "length pnoise = length dates"
    using normal_size_length [of G 0 15 "length dates" g2] pn by simp
  define ords where "ords = map (\<lambda>(e, t). round_half_even (clip_min (of_int b + e + t) 10)) (zip noise (linspace (- 10) 10 (length dates)))"
  define revs where "revs = map (\<lambda>(n, e). of_int n * (p + e)) (zip ords pnoise)"
  define rs where "rs = map (\<lambda>(d, n, r). (d, cname, n, r, clat, clon)) (zip dates (zip ords revs))"
  have lo: "length ords = length dates" by (simp add: ords_def ln linspace_length)
  have lr: "length revs = length dates" by (simp add: revs_def lo lp)
  have eq: "city_rows G dates c g = Inr (rs, g3)"
    using assms by (simp add: city_rows_def c b n pn price_of_def Let_def rs_def revs_def ords_def)
  have ge: "\<forall>n \<in> set ords. 10 \<le> n"
  proof
    fix n assume "n \<in> set ords"
    then obtain e t where "n = round_half_even (clip_min (of_int b + e + t) 10)"
      by (auto simp: ords_def)
    moreover have "of_int 10 \<le> clip_min (of_int b + e + t) 10"
      using clip_min_ge [of 10 "of_int b + e + t"] by simp
    ultimately show "10 \<le> n" using round_half_even_ge by blast
  qed
  have m1: "map (\<lambda>r. (city r, date r)) (map mk_record rs) = map (\<lambda>d. (fst c, d)) dates"
  proof (rule nth_equalityI)
    show "length (map (\<lambda>r. (city r, date r)) (map mk_record rs)) = length (map (\<lambda>d. (fst c, d)) dates)"
      by (simp add: rs_def lo lr)
  next
    fix i assume "i < length (map (\<lambda>r. (city r, date r)) (map mk_record rs))"
    then have i: "i < length dates" by (simp add: rs_def lo lr)
    then show "map (\<lambda>r. (city r, date r)) (map mk_record rs) ! i = map (\<lambda>d. (fst c, d)) dates ! i"
      by (simp add: rs_def lo lr mk_record_def c)
  qed
  have m2: "\<forall>r \<in> set (map mk_record rs). 10 \<le> orders r"
  proof
    fix r assume "r \<in> set (map mk_record rs)"
    then obtain d n rv where "(d, n, rv) \<in> set (zip dates (zip ords revs))" and r: "r = mk_record (d, cname, n, rv, clat, clon)"
      by (auto simp: rs_def)
    then have "n \<in> set ords" by (meson set_zip_leftD set_zip_rightD)
    then show "10 \<le> orders r" using ge r by (simp add: mk_record_def)
  qed
  show ?thesis using eq m1 m2 by blast
qed


lemma rows_loop_ok:
  assumes "\<forall>c \<in> set cs. \<exists>p. map_of prices (fst c) = Some p"
  shows "\<exists>rs g'. rows_loop G ds cs g = Inr (rs, g') \<and>
           map (\<lambda>r. (city r, date r)) (map mk_record rs) = concat (map (\<lambda>c. map (\<lambda>d. (fst c, d)) ds) cs) \<and>
           (\<forall>r \<in> set (map mk_record rs). 10 \<le> orders r)"
  using assms
proof (induction cs arbitrary: g)
  case Nil
  then show ?case by simp
next
  case (Cons c cs)
  from Cons.prems obtain p where p: "map_of prices (fst c) = Some p" by auto
  from city_rows_ok [OF p, of G ds g] obtain rs g1 where
    h: "city_rows G ds c g = Inr (rs, g1)"
       "map (\<lambda>r. (city r, date r)) (map mk_record rs) = map (\<lambda>d. (fst c, d)) ds"
       "\<forall>r \<in> set (map mk_record rs). 10 \<le> orders r"
    by blast
  from Cons.IH [of g1] Cons.prems obtain rs' g2 where
    t: "rows_loop G ds cs g1 = Inr (rs', g2)"
       "map (\<lambda>r. (city r, date r)) (map mk_record rs') = concat (map (\<lambda>c. map (\<lambda>d. (fst c, d)) ds) cs)"
       "\<forall>r \<in> set (map mk_record rs'). 10 \<le> orders r"
    by auto
  have "rows_loop G ds (c # cs) g = Inr (rs @ rs', g2)"
    by (simp add: h(1) t(1))
  moreover have "map (\<lambda>r. (city r, date r)) (map mk_record (rs @ rs')) =
      concat (map (\<lambda>c. map (\<lambda>d. (fst c, d)) ds) (c # cs))"
    using h(2) t(2) by simp
  moreover have "\<forall>r \<in> set (map mk_record (rs @ rs')). 10 \<le> orders r"
    using h(3) t(3) by auto
  ultimately show ?case by blast
qed

lemma cities_priced: "\<forall>c \<in> set cities. \<exists>p. map_of prices (fst c) = Some p"
  by (simp add: cities_def prices_def)

lemma make_data_ok:
  "\<exists>df geo. make_data G now seed days = Inr (df, geo) \<and>
     map (\<lambda>r. (city r, date r)) df = concat (map (\<lambda>c. map (\<lambda>d. (c, d)) (make_dates now days)) city_names) \<and>
     (\<forall>r \<in> set df. 10 \<le> orders r) \<and>
     length geo = 1600"
proof -
  from rows_loop_ok [OF cities_priced, of G "make_dates now days" "default_rng G seed"]
  obtain rs g1 where
    h: "rows_loop G (make_dates now days) cities (default_rng G seed) = Inr (rs, g1)"
       "map (\<lambda>r. (city r, date r)) (map mk_record rs) = concat (map (\<lambda>c. map (\<lambda>d. (fst c, d)) (make_dates now days)) cities)"
       "\<forall>r \<in> set (map mk_record rs). 10 \<le> orders r"
    by blast
  obtain pts g2 where p: "pts_loop G cities g1 = (pts, g2)" by (cases "pts_loop G cities g1")
  have lp: "length pts = 1600"
    using pts_loop_length [of G cities g1] p by (simp add: cities_def)
  have "make_data G now seed days = Inr (map mk_record rs, pts)"
    by (simp add: make_data_def Let_def h(1) p)
  moreover have "concat (map (\<lambda>c. map (\<lambda>d. (fst c, d)) (make_dates now days)) cities)
      = concat (map (\<lambda>c. map (\<lambda>d. (c, d)) (make_dates now days)) city_names)"
    by (simp add: city_names_def comp_def)
  ultimately show ?thesis using h(2,3) lp by auto
qed

lemma length_make_dates: "length (make_dates now days) = nat days"
  by (simp add: make_dates_def date_range_def Timedelta_def Let_def)

lemma make_dates_same_day: "normalize now1 = normalize now2 \<Longrightarrow> make_dates now1 days = make_dates now2 days"
  by (simp add: make_dates_def)

subsection \<open>The claims about the generator\<close>

text \<open>
  C7.  For every generator, clock, seed and day count the call returns a table, and every
  \<open>orders\<close> value in it is an integer that is at least the floor 10 of the clip.\<close>

theorem orders_floor:
  "\<exists>df geo. make_data G now seed days = Inr (df, geo) \<and> (\<forall>r \<in> set df. 10 \<le> orders r)"
  using make_data_ok [of G now seed days] by blast

theorem orders_floor_witness:
  "length (fst (projr (make_data toy_rng 0 42 1))) = 4 \<and>
   10 \<le> orders (hd (fst (projr (make_data toy_rng 0 42 1))))"
proof -
  from orders_floor [of toy_rng 0 42 1] obtain df geo where
    h: "make_data toy_rng 0 42 1 = Inr (df, geo)" "\<forall>r \<in> set df. 10 \<le> orders r"
    by blast
  from make_data_ok [of toy_rng 0 42 1] h(1) have
    "map (\<lambda>r. (city r, date r)) df = concat (map (\<lambda>c. map (\<lambda>d. (c, d)) (make_dates 0 1)) city_names)"
    by auto
  then have "length (map (\<lambda>r. (city r, date r)) df) = 4"
    by (simp add: length_concat comp_def length_make_dates city_names_def cities_def)
  then have l: "length df = 4" by simp
  then have "df \<noteq> []" by auto
  then have "hd df \<in> set df" by simp
  with h l show ?thesis by simp
qed

text \<open>
  C9.  The table has one row for each pair of a city and a day, the cities in the order of
  the dictionary and the days ascending within a city: 4 times \<open>days\<close> rows for a positive
  day count (none for another one).  The point cloud has 4 times 400 points.\<close>

theorem coverage:
  "\<exists>df geo. make_data G now seed days = Inr (df, geo) \<and>
     length df = length cities * nat days \<and>
     map (\<lambda>r. (city r, date r)) df = concat (map (\<lambda>c. map (\<lambda>d. (c, d)) (make_dates now days)) city_names) \<and>
     length cities = 4 \<and>
     length geo = length cities * 400"
proof -
  from make_data_ok [of G now seed days] obtain df geo where
    h: "make_data G now seed days = Inr (df, geo)"
       "map (\<lambda>r. (city r, date r)) df = concat (map (\<lambda>c. map (\<lambda>d. (c, d)) (make_dates now days)) city_names)"
       "length geo = 1600"
    by blast
  have "length (map (\<lambda>r. (city r, date r)) df) = length cities * nat days"
    unfolding h(2) by (simp add: length_concat comp_def length_make_dates city_names_def cities_def)
  then have "length df = length cities * nat days" by simp
  moreover have "length cities = 4" by (simp add: cities_def)
  ultimately show ?thesis using h by auto
qed

theorem coverage_witness:
  "length (fst (projr (make_data toy_rng 0 42 2))) = 8 \<and>
   length (snd (projr (make_data toy_rng 0 42 2))) = 1600"
  using coverage [of toy_rng 0 42 2] by auto

text \<open>
  C8.  Two calls with the same seed and day count whose clocks read the same calendar day
  return the same result: the same table, row by row, and the same point cloud.  Through
  the cache the second call returns what the first one returned.\<close>

theorem determinism:
  assumes "normalize now1 = normalize now2"
  shows "make_data G now1 seed days = make_data G now2 seed days \<and>
         fst (make_data_cached G (snd (make_data_cached G ch now1 seed days)) now2 seed days)
           = fst (make_data_cached G ch now1 seed days)"
proof -
  have a: "make_data G now1 seed days = make_data G now2 seed days"
    using make_dates_same_day [OF assms] by (simp add: make_data_def)
  from make_data_ok [of G now2 seed days] obtain r where r: "make_data G now2 seed days = Inr r"
    by auto
  have "fst (make_data_cached G (snd (make_data_cached G ch now1 seed days)) now2 seed days)
           = fst (make_data_cached G ch now1 seed days)"
    by (cases "ch (seed, days)") (simp_all add: make_data_cached_def a r)
  with a show ?thesis by simp
qed

theorem determinism_witness:
  "normalize 0 = normalize 86399999999999 \<and>
   make_data toy_rng 0 42 120 = make_data toy_rng 86399999999999 42 120 \<and>
   fst (make_data_cached toy_rng (snd (make_data_cached toy_rng Map.empty 0 42 120)) 86399999999999 42 120)
     = fst (make_data_cached toy_rng Map.empty 0 42 120)"
proof -
  have h: "normalize 0 = normalize 86399999999999"
    by (simp add: normalize_def ns_per_day_def)
  show ?thesis using h determinism [OF h, of toy_rng 42 120 Map.empty] by simp
qed

text \<open>
  C3, as the claim states it: a call with a day count that is not positive fails with an
  error.  It does not: with the day count 0 the call returns, and its table is empty.\<close>

theorem fail_fast_counterexample:
  "\<not> isl (make_data toy_rng 0 42 0) \<and> fst (projr (make_data toy_rng 0 42 0)) = []"
proof -
  from make_data_ok [of toy_rng 0 42 0] obtain df geo where
    h: "make_data toy_rng 0 42 0 = Inr (df, geo)"
       "map (\<lambda>r. (city r, date r)) df = concat (map (\<lambda>c. map (\<lambda>d. (c, d)) (make_dates 0 0)) city_names)"
    by blast
  have "make_dates 0 0 = []" using length_make_dates [of 0 0] by simp
  then have "df = []" using h(2) by (simp add: city_names_def cities_def)
  with h(1) show ?thesis by simp
qed

text \<open>
  C3, amended.  For every day count that is not positive, with a seed and dates that the
  library calls accept, the call raises no error: it returns the table without rows and
  the whole point cloud of 4 times 400 points.\<close>

theorem nonpositive_days_empty:
  assumes "days \<le> 0" and "accepted now seed days"
  shows "\<exists>geo. make_data G now seed days = Inr ([], geo) \<and> length geo = length cities * 400"
proof -
  from make_data_ok [of G now seed days] obtain df geo where
    h: "make_data G now seed days = Inr (df, geo)"
       "map (\<lambda>r. (city r, date r)) df = concat (map (\<lambda>c. map (\<lambda>d. (c, d)) (make_dates now days)) city_names)"
       "length geo = 1600"
    by blast
  have "make_dates now days = []" using length_make_dates [of now days] assms(1) by simp
  then have "df = []" using h(2) by (simp add: city_names_def cities_def)
  with h show ?thesis by (simp add: cities_def)
qed

theorem nonpositive_days_empty_witness:
  "(- 3 :: int) \<le> 0 \<and> accepted 0 42 (- 3) \<and>
   make_data toy_rng 0 42 (- 3) = Inr ([], snd (projr (make_data toy_rng 0 42 (- 3)))) \<and>
   length (snd (projr (make_data toy_rng 0 42 (- 3)))) = 1600"
proof -
  have h: "(- 3 :: int) \<le> 0" by simp
  have a: "accepted 0 42 (- 3)"
    by (simp add: accepted_def pandas_max_days_def normalize_def ns_per_day_def Timedelta_def)
  show ?thesis using h a nonpositive_days_empty [OF h a, of toy_rng] by (auto simp: cities_def)
qed

subsection \<open>The dates of the generated table\<close>

lemma date_max_eq: "date_max df = (if df = [] then None else Some (Max (date ` set df)))"
proof (cases df)
  case Nil
  then show ?thesis by (simp add: date_max_def)
next
  case (Cons r rs)
  have "fold max (map date rs) (date r) = Max (set (date r # map date rs))"
    by (simp only: Max.set_eq_fold)
  then show ?thesis using Cons by (simp add: date_max_def)
qed

lemma date_max_cong: "date ` set a = date ` set b \<Longrightarrow> date_max a = date_max b"
  by (auto simp: date_max_eq)

lemma keys_product:
  assumes "map (\<lambda>r. (city r, date r)) df = concat (map (\<lambda>c. map (\<lambda>d. (c, d)) ds) cs)"
  shows "date ` {r \<in> set df. P (city r)} = (if \<exists>c \<in> set cs. P c then set ds else {})"
proof -
  have "(\<lambda>r. (city r, date r)) ` set df = set (map (\<lambda>r. (city r, date r)) df)" by simp
  also have "\<dots> = set cs \<times> set ds" unfolding assms by auto
  finally have k: "(\<lambda>r. (city r, date r)) ` set df = set cs \<times> set ds" .
  have "date ` {r \<in> set df. P (city r)} = snd ` {k \<in> (\<lambda>r. (city r, date r)) ` set df. P (fst k)}"
    by force
  also have "\<dots> = snd ` {k \<in> set cs \<times> set ds. P (fst k)}" by (simp only: k)
  also have "\<dots> = (if \<exists>c \<in> set cs. P c then set ds else {})" by force
  finally show ?thesis .
qed

text \<open>
  C10.  In the table of every call each city has exactly the days of the one date range,
  so the latest date of each city is the latest date of the table.  Hence for a selection
  that holds at least one of the four cities the cutoff computed from the selected rows is
  the cutoff computed from the whole table, and for every selection the view is the one
  that the cutoff of the whole table gives.\<close>

theorem shared_dates:
  "\<exists>df geo. make_data G now seed days = Inr (df, geo) \<and>
     (\<forall>c \<in> set city_names.
        set (map date (filter (\<lambda>r. city r = c) df)) = set (make_dates now days) \<and>
        date_max (filter (\<lambda>r. city r = c) df) = date_max df) \<and>
     (\<forall>city_filter days_back.
        (\<exists>c \<in> set city_filter. c \<in> set city_names) \<longrightarrow>
        cutoff (isin city_filter df) days_back = cutoff df days_back) \<and>
     (\<forall>city_filter days_back.
        df_view df city_filter days_back = from_cutoff (cutoff df days_back) (isin city_filter df))"
proof -
  from make_data_ok [of G now seed days] obtain df geo where
    md: "make_data G now seed days = Inr (df, geo)" and
    keys: "map (\<lambda>r. (city r, date r)) df = concat (map (\<lambda>c. map (\<lambda>d. (c, d)) (make_dates now days)) city_names)"
    by blast
  let ?ds = "make_dates now days"
  note kp = keys_product [OF keys]
  have ne: "city_names \<noteq> []" by (simp add: city_names_def cities_def)
  have all: "date ` set df = set ?ds"
    using kp [of "\<lambda>c. True"] ne by (auto simp: neq_Nil_conv)
  have sel: "date ` set (filter (\<lambda>r. P (city r)) df) = (if \<exists>c \<in> set city_names. P c then set ?ds else {})" for P
    using kp [of P] by simp
  have one: "set (map date (filter (\<lambda>r. city r = c) df)) = set ?ds \<and>
        date_max (filter (\<lambda>r. city r = c) df) = date_max df" if "c \<in> set city_names" for c
  proof -
    have s: "date ` set (filter (\<lambda>r. city r = c) df) = set ?ds"
      using sel [of "\<lambda>x. x = c"] that by simp
    then have "date_max (filter (\<lambda>r. city r = c) df) = date_max df"
      using all by (intro date_max_cong) simp
    with s show ?thesis by simp
  qed
  have cut: "cutoff (isin cf df) w = cutoff df w" if "\<exists>c \<in> set cf. c \<in> set city_names" for cf w
  proof -
    have "date ` set (isin cf df) = set ?ds"
      using sel [of "\<lambda>x. x \<in> set cf"] that by (auto simp: isin_def)
    then have "date_max (isin cf df) = date_max df"
      using all by (intro date_max_cong) simp
    then show ?thesis by (simp add: cutoff_def)
  qed
  have view: "df_view df cf w = from_cutoff (cutoff df w) (isin cf df)" for cf w
  proof (cases "\<exists>c \<in> set cf. c \<in> set city_names")
    case True
    then show ?thesis using cut [of cf w] by (simp add: df_view_def Let_def)
  next
    case False
    then have "date ` set (isin cf df) = {}"
      using sel [of "\<lambda>x. x \<in> set cf"] by (auto simp: isin_def)
    then have "isin cf df = []" by simp
    then show ?thesis by (simp add: df_view_def Let_def from_cutoff_def)
  qed
  show ?thesis using md one cut view by blast
qed

theorem shared_dates_witness:
  "''Pune'' \<in> set city_names \<and>
   date_max (filter (\<lambda>r. city r = ''Pune'') (fst (projr (make_data toy_rng 0 42 2))))
     = date_max (fst (projr (make_data toy_rng 0 42 2))) \<and>
   cutoff (isin [''Pune''] (fst (projr (make_data toy_rng 0 42 2)))) 14
     = cutoff (fst (projr (make_data toy_rng 0 42 2))) 14"
proof -
  have p: "''Pune'' \<in> set city_names" by (simp add: city_names_def cities_def)
  from shared_dates [of toy_rng 0 42 2] obtain df geo where
    h: "make_data toy_rng 0 42 2 = Inr (df, geo)"
       "\<forall>c \<in> set city_names. set (map date (filter (\<lambda>r. city r = c) df)) = set (make_dates 0 2) \<and>
          date_max (filter (\<lambda>r. city r = c) df) = date_max df"
       "\<forall>city_filter days_back. (\<exists>c \<in> set city_filter. c \<in> set city_names) \<longrightarrow>
          cutoff (isin city_filter df) days_back = cutoff df days_back"
    by blast
  have "date_max (filter (\<lambda>r. city r = ''Pune'') df) = date_max df" using h(2) p by blast
  moreover have "cutoff (isin [''Pune''] df) 14 = cutoff df 14"
  proof -
    have "\<exists>c \<in> set [''Pune'']. c \<in> set city_names" using p by simp
    with h(3) show ?thesis by blast
  qed
  ultimately show ?thesis using p h(1) by simp
qed

section \<open>Properties of the view\<close>

subsection \<open>The filter and the pivot\<close>

lemma view_rows_shape: "view_rows (shape df cf m w s) = df_view df cf w"
  by (simp add: shape_def Let_def)

lemma pivot_shape: "pivot (shape df cf m w s) = sort_index (pivot_table m (df_view df cf w))"
  by (simp add: shape_def Let_def)

lemma wrows_sorted:
  "wrows (sort_index (pivot_table m v)) =
     map (\<lambda>d. (d, map (\<lambda>c. agg_sum m v d c) (sort (remdups (map city v))))) (sort (remdups (map date v)))"
proof -
  let ?f = "\<lambda>d. (d, map (\<lambda>c. agg_sum m v d c) (sort (remdups (map city v))))"
  let ?ds = "sort (remdups (map date v))"
  have "map fst (map ?f ?ds) = ?ds" by (simp add: comp_def)
  then have "sorted (map fst (map ?f ?ds))" by simp
  then have "sort_key fst (map ?f ?ds) = map ?f ?ds" by (rule sort_key_id_if_sorted)
  then show ?thesis by (simp add: sort_index_def pivot_table_def Let_def)
qed

lemma wcolumns_sorted: "wcolumns (sort_index (pivot_table m v)) = sort (remdups (map city v))"
  by (simp add: sort_index_def pivot_table_def Let_def)

lemma index_pivot: "map fst (wrows (sort_index (pivot_table m v))) = sort (remdups (map date v))"
  by (simp add: wrows_sorted comp_def)

lemma cell_pivot:
  "cell (sort_index (pivot_table m v)) d c =
     (if d \<in> date ` set v \<and> c \<in> city ` set v then Some (agg_sum m v d c) else None)"
proof -
  let ?cols = "sort (remdups (map city v))"
  let ?ds = "sort (remdups (map date v))"
  have r: "map_of (wrows (sort_index (pivot_table m v))) d =
      (if d \<in> date ` set v then Some (map (\<lambda>c. agg_sum m v d c) ?cols) else None)"
    by (simp add: wrows_sorted map_of_map_restrict restrict_map_def)
  have z: "zip ?cols (map (\<lambda>c. agg_sum m v d c) ?cols) = map (\<lambda>c. (c, agg_sum m v d c)) ?cols"
    by (simp add: zip_map2 zip_same_conv_map)
  have c: "map_of (zip ?cols (map (\<lambda>c. agg_sum m v d c) ?cols)) c =
      (if c \<in> city ` set v then Some (agg_sum m v d c) else None)"
    by (simp only: z) (simp add: map_of_map_restrict restrict_map_def)
  show ?thesis
    by (simp add: cell_def r wcolumns_sorted c)
qed

lemma df_view_window:
  assumes "date_max (isin cf df) = Some m"
  shows "df_view df cf w = filter (\<lambda>r. city r \<in> set cf \<and> m - (w - 1) \<le> date r \<and> date r \<le> m) df"
proof -
  have ne: "isin cf df \<noteq> []" and m: "m = Max (date ` set (isin cf df))"
    using assms by (auto simp: date_max_eq split: if_splits)
  have le: "date r \<le> m" if "r \<in> set df" "city r \<in> set cf" for r
  proof -
    have "date r \<in> date ` set (isin cf df)" using that by (simp add: isin_def)
    then show ?thesis unfolding m by (intro Max_ge) simp_all
  qed
  have "df_view df cf w = filter (\<lambda>r. m - (w - 1) \<le> date r) (filter (\<lambda>r. city r \<in> set cf) df)"
    using assms by (simp add: df_view_def cutoff_def from_cutoff_def Timedelta_def Let_def isin_def)
  also have "\<dots> = filter (\<lambda>r. city r \<in> set cf \<and> m - (w - 1) \<le> date r \<and> date r \<le> m) df"
    unfolding filter_filter by (rule filter_cong) (use le in auto)
  finally show ?thesis .
qed

subsection \<open>The view of the small table\<close>

lemma ex_pune_max: "date_max (isin [''Pune''] example_df) = Some 2"
  by code_simp

lemma ex_max: "date_max example_df = Some 4"
  by code_simp

lemma ex_view_all: "view_rows (shape example_df [''Delhi'', ''Pune''] Orders 14 False) = example_df"
  by code_simp

lemma ex_view_delhi: "map (\<lambda>r. (date r, city r, orders r)) (view_rows (shape example_df [''Delhi''] Orders 14 True)) = [(2, ''Delhi'', 90), (4, ''Delhi'', 95)]"
  by code_simp

subsection \<open>The claims about the filter and the pivot\<close>

text \<open>
  C2.  With an empty selection of cities the view has no rows, whatever the table, the
  metric, the window and the smoothing box are: the maximum of the dates is NaT, no date
  passes the comparison with it, the smoothed column is empty, and the pivot has no column
  and no row.  No step raises.\<close>

theorem empty_selection:
  "shape df [] m days_back smooth =
     \<lparr>view_rows = [], smoothed = (if smooth then Some [] else None),
      pivot = \<lparr>wcolumns = [], wrows = []\<rparr>, alt_value = []\<rparr>"
  by (simp add: shape_def df_view_def isin_def cutoff_def date_max_def from_cutoff_def
      smoothed_column_def sort_values_def groupby_transform_def get_group_def enumerate_eq_zip
      pivot_table_def sort_index_def Let_def)

text \<open>
  C4.  Let m be the latest date among the rows of the selected cities.  Then m is the date
  of such a row and no such row is later, the view keeps exactly the rows of the selected
  cities whose date lies between m - (w - 1) and m, every row of the pivot has its date in
  that window, and the pivot has at most w rows.\<close>

theorem trailing_window:
  assumes "date_max (isin city_filter df) = Some m"
  shows "m \<in> date ` set (isin city_filter df) \<and>
         (\<forall>r \<in> set (isin city_filter df). date r \<le> m) \<and>
         view_rows (shape df city_filter mt w smooth) =
           filter (\<lambda>r. city r \<in> set city_filter \<and> m - (w - 1) \<le> date r \<and> date r \<le> m) df \<and>
         (\<forall>row \<in> set (wrows (pivot (shape df city_filter mt w smooth))).
            m - (w - 1) \<le> fst row \<and> fst row \<le> m) \<and>
         length (wrows (pivot (shape df city_filter mt w smooth))) \<le> nat w"
proof -
  let ?v = "df_view df city_filter w"
  let ?t = "sort_index (pivot_table mt ?v)"
  have ne: "isin city_filter df \<noteq> []" and m: "m = Max (date ` set (isin city_filter df))"
    using assms by (auto simp: date_max_eq split: if_splits)
  have a: "m \<in> date ` set (isin city_filter df)"
    unfolding m using ne by (intro Max_in) simp_all
  have b: "\<forall>r \<in> set (isin city_filter df). date r \<le> m"
    unfolding m by (auto intro!: Max_ge)
  have c: "?v = filter (\<lambda>r. city r \<in> set city_filter \<and> m - (w - 1) \<le> date r \<and> date r \<le> m) df"
    by (rule df_view_window [OF assms])
  have sub: "date ` set ?v \<subseteq> {m - (w - 1)..m}"
    unfolding c by auto
  have idx: "set (map fst (wrows ?t)) = date ` set ?v"
    by (simp only: index_pivot) simp
  have d: "\<forall>row \<in> set (wrows ?t). m - (w - 1) \<le> fst row \<and> fst row \<le> m"
  proof
    fix row assume "row \<in> set (wrows ?t)"
    then have "fst row \<in> set (map fst (wrows ?t))" by simp
    then have "fst row \<in> {m - (w - 1)..m}" using idx sub by blast
    then show "m - (w - 1) \<le> fst row \<and> fst row \<le> m" by simp
  qed
  have "length (wrows ?t) = length (map fst (wrows ?t))" by simp
  also have "\<dots> = length (remdups (map date ?v))" by (simp only: index_pivot length_sort)
  also have "\<dots> = card (date ` set ?v)" by (simp add: length_remdups_card_conv)
  also have "\<dots> \<le> card {m - (w - 1)..m}" using sub by (intro card_mono) simp_all
  also have "\<dots> = nat w" by simp
  finally have e: "length (wrows ?t) \<le> nat w" .
  show ?thesis using a b c d e by (simp add: view_rows_shape pivot_shape)
qed

theorem trailing_window_witness:
  "date_max (isin [''Pune''] example_df) = Some 2 \<and>
   date_max example_df = Some 4 \<and>
   view_rows (shape example_df [''Pune''] Orders 2 False) =
     filter (\<lambda>r. city r \<in> set [''Pune''] \<and> 2 - (2 - 1) \<le> date r \<and> date r \<le> 2) example_df \<and>
   length (wrows (pivot (shape example_df [''Pune''] Orders 2 False))) \<le> nat 2"
  using trailing_window [OF ex_pune_max, of Orders 2 False] ex_pune_max ex_max by simp

text \<open>
  C6.  For a date and a city that both occur in the view, the cell of the pivot holds NaN
  when the view has no row with that date and that city, and the sum of the metric over
  all such rows otherwise; NaN is not the number zero.\<close>

theorem pivot_cells:
  assumes "d \<in> date ` set (view_rows (shape df city_filter m days_back smooth))"
      and "c \<in> city ` set (view_rows (shape df city_filter m days_back smooth))"
  shows "cell (pivot (shape df city_filter m days_back smooth)) d c =
     Some (if filter (\<lambda>r. date r = d \<and> city r = c) (view_rows (shape df city_filter m days_back smooth)) = []
           then None
           else Some (sum_list (map (metric_value m)
                  (filter (\<lambda>r. date r = d \<and> city r = c) (view_rows (shape df city_filter m days_back smooth))))))
     \<and> Some None \<noteq> Some (Some (0::real))"
  using assms by (simp add: view_rows_shape pivot_shape cell_pivot agg_sum_def Let_def)

theorem pivot_cells_witness:
  "cell (pivot (shape example_df [''Delhi'', ''Pune''] Orders 14 False)) 0 ''Delhi'' = Some None \<and>
   cell (pivot (shape example_df [''Delhi'', ''Pune''] Orders 14 False)) 2 ''Pune'' = Some (Some 150)"
proof -
  have d0: "0 \<in> date ` set (view_rows (shape example_df [''Delhi'', ''Pune''] Orders 14 False))"
    by (simp only: ex_view_all) (simp add: example_df_def mk_record_def)
  have d2: "2 \<in> date ` set (view_rows (shape example_df [''Delhi'', ''Pune''] Orders 14 False))"
    by (simp only: ex_view_all) (simp add: example_df_def mk_record_def)
  have cD: "''Delhi'' \<in> city ` set (view_rows (shape example_df [''Delhi'', ''Pune''] Orders 14 False))"
    by (simp only: ex_view_all) (simp add: example_df_def mk_record_def)
  have cP: "''Pune'' \<in> city ` set (view_rows (shape example_df [''Delhi'', ''Pune''] Orders 14 False))"
    by (simp only: ex_view_all) (simp add: example_df_def mk_record_def)
  show ?thesis
    using pivot_cells [OF d0 cD, unfolded ex_view_all] pivot_cells [OF d2 cP, unfolded ex_view_all]
    by (simp add: example_df_def mk_record_def metric_value_def)
qed

text \<open>
  C1, as the claim states it: with the smoothing box ticked, every cell of the pivot holds
  the smoothed value.  In the small table with Delhi selected, the second row of the view
  is Delhi on day 4; its smoothed value is 185 / 2, and the cell of the pivot for that day
  and city holds the raw value 95.\<close>

theorem smoothed_cells_counterexample:
  "date (view_rows (shape example_df [''Delhi''] Orders 14 True) ! 1) = 4 \<and>
   city (view_rows (shape example_df [''Delhi''] Orders 14 True) ! 1) = ''Delhi'' \<and>
   smoothed (shape example_df [''Delhi''] Orders 14 True) = Some [Some 90, Some (185 / 2)] \<and>
   cell (pivot (shape example_df [''Delhi''] Orders 14 True)) 4 ''Delhi'' = Some (Some 95)"
  by code_simp

text \<open>
  C1, amended.  The pivot is built from the raw metric whether or not the smoothing box is
  ticked: both give the same table, and each cell for a date and a city of the view holds
  the sum of the raw metric values of their rows (NaN where there is none).  The smoothed
  values are the column \<open>smoothed\<close>, and they are the values of the Altair chart
  only.\<close>

theorem pivot_raw_under_smoothing:
  assumes "d \<in> date ` set (view_rows (shape df city_filter m days_back True))"
      and "c \<in> city ` set (view_rows (shape df city_filter m days_back True))"
  shows "pivot (shape df city_filter m days_back True) = pivot (shape df city_filter m days_back False) \<and>
         cell (pivot (shape df city_filter m days_back True)) d c =
           Some (if filter (\<lambda>r. date r = d \<and> city r = c) (view_rows (shape df city_filter m days_back True)) = []
                 then None
                 else Some (sum_list (map (metric_value m)
                   (filter (\<lambda>r. date r = d \<and> city r = c) (view_rows (shape df city_filter m days_back True)))))) \<and>
         smoothed (shape df city_filter m days_back True) =
           Some (smoothed_column m (view_rows (shape df city_filter m days_back True))) \<and>
         alt_value (shape df city_filter m days_back True) =
           smoothed_column m (view_rows (shape df city_filter m days_back True))"
  using assms by (simp add: view_rows_shape pivot_shape cell_pivot agg_sum_def Let_def) (simp add: shape_def Let_def)

theorem pivot_raw_under_smoothing_witness:
  "cell (pivot (shape example_df [''Delhi''] Orders 14 True)) 4 ''Delhi'' = Some (Some 95) \<and>
   pivot (shape example_df [''Delhi''] Orders 14 True) = pivot (shape example_df [''Delhi''] Orders 14 False)"
proof -
  let ?v = "view_rows (shape example_df [''Delhi''] Orders 14 True)"
  have "set (map (\<lambda>r. (date r, city r, orders r)) ?v) = {(2, ''Delhi'', 90), (4, ''Delhi'', 95)}"
    by (simp only: ex_view_delhi) simp
  then have "(4, ''Delhi'', 95) \<in> (\<lambda>r. (date r, city r, orders r)) ` set ?v" by simp
  then obtain r where r: "r \<in> set ?v" "date r = 4" "city r = ''Delhi''" "orders r = 95" by auto
  have d: "4 \<in> date ` set ?v" using r by force
  have c: "''Delhi'' \<in> city ` set ?v" using r by force
  have f: "map orders (filter (\<lambda>r. date r = 4 \<and> city r = ''Delhi'') ?v) = [95]"
    by code_simp
  then have s: "sum_list (map (metric_value Orders) (filter (\<lambda>r. date r = 4 \<and> city r = ''Delhi'') ?v)) = 95"
  proof -
    have "map (metric_value Orders) (filter (\<lambda>r. date r = 4 \<and> city r = ''Delhi'') ?v)
        = map real_of_int (map orders (filter (\<lambda>r. date r = 4 \<and> city r = ''Delhi'') ?v))"
      by (simp add: metric_value_def)
    then show ?thesis by (simp only: f) simp
  qed
  have n: "filter (\<lambda>r. date r = 4 \<and> city r = ''Delhi'') ?v \<noteq> []" using f by auto
  note t = pivot_raw_under_smoothing [OF d c]
  have "cell (pivot (shape example_df [''Delhi''] Orders 14 True)) 4 ''Delhi'' = Some (Some 95)"
    using t [THEN conjunct2, THEN conjunct1] s n by simp
  with t [THEN conjunct1] show ?thesis by simp
qed

subsection \<open>The rolling mean and the smoothed column\<close>

lemma rolling_mean_length: "length (rolling_mean w xs) = length xs"
  by (simp add: rolling_mean_def)

lemma rolling_mean_nth:
  assumes "k < length xs"
  shows "rolling_mean 7 xs ! k =
     (if k < 7 then sum_list (take (Suc k) xs) / real (Suc k)
      else sum_list (take 7 (drop (k - 6) xs)) / 7)"
proof (cases "k < 7")
  case True
  then have "Suc k - 7 = 0" by simp
  then show ?thesis using assms True by (simp add: rolling_mean_def Let_def min_def)
next
  case False
  then have e: "Suc k - 7 = k - 6" by simp
  have d: "drop (k - 6) (take (Suc k) xs) = take 7 (drop (k - 6) xs)"
    using False by (simp add: drop_take)
  have l: "length (take 7 (drop (k - 6) xs)) = 7"
    using assms False by simp
  show ?thesis using assms False
    by (simp add: rolling_mean_def Let_def e d l del: length_take length_drop)
qed

lemma rolling_mean_first: "xs \<noteq> [] \<Longrightarrow> rolling_mean 7 xs ! 0 = xs ! 0"
  using rolling_mean_nth [of 0 xs] by (cases xs) simp_all

lemma sort_values_set: "set (sort_values f) = set f"
  by (simp add: sort_values_def)

lemma sorted_frame_labels: "distinct (map fst (sort_values (enumerate 0 v)))"
proof -
  have "distinct (map fst (enumerate 0 v))" by simp
  then have "distinct (enumerate 0 v) \<and> inj_on fst (set (enumerate 0 v))"
    by (simp only: distinct_map)
  then have "distinct (sort_values (enumerate 0 v)) \<and> inj_on fst (set (sort_values (enumerate 0 v)))"
    by (simp add: sort_values_def)
  then show ?thesis by (simp only: distinct_map)
qed

lemma sorted_frame_rows:
  "(i, r) \<in> set (sort_values (enumerate 0 v)) \<longleftrightarrow> i < length v \<and> r = v ! i"
  by (auto simp: sort_values_set in_set_enumerate_eq)

lemma city_series_set: "set (city_series c v) = {(i, r). i < length v \<and> r = v ! i \<and> city r = c}"
  by (auto simp: city_series_def get_group_def sorted_frame_rows)

lemma city_series_labels: "distinct (map fst (city_series c v))"
  unfolding city_series_def get_group_def by (rule distinct_map_filter) (rule sorted_frame_labels)

lemma city_series_sorted: "sorted (map (\<lambda>(i, r). date r) (city_series c v))"
proof -
  let ?key = "\<lambda>(i::nat, r). (city r, date r)"
  have "sorted (map ?key (sort_values (enumerate 0 v)))"
    by (simp add: sort_values_def)
  then have "sorted (map ?key (city_series c v))"
    unfolding city_series_def get_group_def by (rule sorted_filter)
  then have s: "sorted_wrt (\<lambda>a b. ?key a \<le> ?key b) (city_series c v)"
    by (simp add: sorted_map)
  have "sorted_wrt (\<lambda>a b. (case a of (i, r) \<Rightarrow> date r) \<le> (case b of (i, r) \<Rightarrow> date r)) (city_series c v)"
  proof (rule sorted_wrt_mono_rel [OF _ s])
    fix a b assume a: "a \<in> set (city_series c v)" and b: "b \<in> set (city_series c v)"
      and le: "?key a \<le> ?key b"
    from a b have "city (snd a) = c" "city (snd b) = c"
      by (auto simp: city_series_set)
    with le show "(case a of (i, r) \<Rightarrow> date r) \<le> (case b of (i, r) \<Rightarrow> date r)"
      by (cases a; cases b) (simp add: less_eq_prod_def)
  qed
  then show ?thesis by (simp add: sorted_map)
qed

lemma map_of_concat_one:
  assumes "c \<in> set cs"
      and "map_of (h c) x = Some y"
      and "\<forall>c' \<in> set cs. c' \<noteq> c \<longrightarrow> x \<notin> fst ` set (h c')"
  shows "map_of (concat (map h cs)) x = Some y"
  using assms
proof (induction cs)
  case Nil
  then show ?case by simp
next
  case (Cons a cs)
  show ?case
  proof (cases "a = c")
    case True
    then show ?thesis using Cons.prems(2) by (simp add: map_add_def)
  next
    case False
    then have n: "map_of (h a) x = None"
      using Cons.prems(3) by (simp add: map_of_eq_None_iff)
    have "map_of (concat (map h cs)) x = Some y"
      using Cons.IH Cons.prems False by auto
    then show ?thesis using n by (simp add: map_add_def)
  qed
qed

lemma smoothed_at_label:
  assumes k: "k < length (city_series c v)"
  shows "smoothed_column m v ! fst (city_series c v ! k) =
     Some (rolling_mean 7 (map (\<lambda>(i, r). metric_value m r) (city_series c v)) ! k)"
proof -
  let ?f = "sort_values (enumerate 0 v)"
  let ?g = "\<lambda>c. get_group c ?f"
  let ?h = "\<lambda>c. zip (map fst (?g c)) (rolling_mean 7 (map (\<lambda>(i, r). metric_value m r) (?g c)))"
  let ?cs = "remdups (map (\<lambda>(i, r). city r) ?f)"
  let ?x = "fst (city_series c v ! k)"
  have mem: "city_series c v ! k \<in> set (city_series c v)" using k by simp
  then have x: "?x < length v" and cx: "city (v ! ?x) = c"
    by (auto simp: city_series_set)
  have fr: "(?x, v ! ?x) \<in> set ?f" using x by (simp add: sorted_frame_rows)
  have c: "c \<in> set ?cs" using fr cx by force
  have one: "map_of (?h c) ?x =
      Some (rolling_mean 7 (map (\<lambda>(i, r). metric_value m r) (city_series c v)) ! k)"
  proof -
    have "map_of (zip (map fst (city_series c v)) (rolling_mean 7 (map (\<lambda>(i, r). metric_value m r) (city_series c v))))
            (map fst (city_series c v) ! k) =
          Some (rolling_mean 7 (map (\<lambda>(i, r). metric_value m r) (city_series c v)) ! k)"
      using k city_series_labels [of c v]
      by (intro map_of_zip_nth) (simp_all add: rolling_mean_length)
    then show ?thesis using k by (simp add: city_series_def)
  qed
  have other: "\<forall>c' \<in> set ?cs. c' \<noteq> c \<longrightarrow> ?x \<notin> fst ` set (?h c')"
  proof (intro ballI impI notI)
    fix c' assume "c' \<noteq> c" and "?x \<in> fst ` set (?h c')"
    then have "?x \<in> set (map fst (?g c'))"
      by (auto dest: set_zip_leftD)
    then obtain r where "(?x, r) \<in> set (city_series c' v)"
      by (auto simp: city_series_def)
    then have "city (v ! ?x) = c'" by (auto simp: city_series_set)
    with cx \<open>c' \<noteq> c\<close> show False by simp
  qed
  have "map_of (concat (map ?h ?cs)) ?x =
      Some (rolling_mean 7 (map (\<lambda>(i, r). metric_value m r) (city_series c v)) ! k)"
    by (rule map_of_concat_one [OF c one other])
  then show ?thesis using x
    by (simp add: smoothed_column_def groupby_transform_def Let_def)
qed

lemma week_view: "view_rows (shape week_df [''Pune''] Orders 14 True) = week_df"
  by code_simp

lemma week_series: "city_series ''Pune'' week_df = enumerate 0 week_df"
  by code_simp

subsection \<open>The claim about the smoothing\<close>

text \<open>
  C5.  With the smoothing box ticked the view gets the column \<open>smoothed\<close>.  Take a city
  and its rows of the view in the order of the sorted frame, which is ascending by date,
  with their raw metric values xs.  The smoothed value of the first of these rows is the
  raw value xs ! 0; the smoothed value of row number k (counted from 0) is the mean of the
  first k + 1 raw values while k < 7, and the mean of the seven raw values that end at
  row k from there on.\<close>

theorem rolling_mean_smoothing:
  assumes "v = view_rows (shape df city_filter m days_back True)"
      and "g = city_series c v"
      and "xs = map (\<lambda>(i, r). metric_value m r) g"
      and "k < length g"
  shows "\<exists>sm. smoothed (shape df city_filter m days_back True) = Some sm \<and>
           length sm = length v \<and>
           set g = {(i, r). i < length v \<and> r = v ! i \<and> city r = c} \<and>
           distinct (map fst g) \<and>
           sorted (map (\<lambda>(i, r). date r) g) \<and>
           sm ! fst (g ! k) =
             Some (if k < 7 then sum_list (take (Suc k) xs) / real (Suc k)
                   else sum_list (take 7 (drop (k - 6) xs)) / 7) \<and>
           sm ! fst (g ! 0) = Some (xs ! 0)"
proof -
  have sm: "smoothed (shape df city_filter m days_back True) = Some (smoothed_column m v)"
    using assms(1) by (simp add: shape_def Let_def)
  have l: "length (smoothed_column m v) = length v"
    by (simp add: smoothed_column_def Let_def)
  have kx: "k < length xs" using assms(3,4) by simp
  have a: "smoothed_column m v ! fst (g ! k) =
      Some (if k < 7 then sum_list (take (Suc k) xs) / real (Suc k)
            else sum_list (take 7 (drop (k - 6) xs)) / 7)"
    using smoothed_at_label [of k c v m] assms(2,3,4) rolling_mean_nth [OF kx] by simp
  have z: "0 < length (city_series c v)" using assms(2,4) by (cases "city_series c v") auto
  have "xs \<noteq> []" using kx by auto
  then have b: "smoothed_column m v ! fst (g ! 0) = Some (xs ! 0)"
    using smoothed_at_label [OF z, of m] assms(2,3) rolling_mean_first [of xs] by simp
  show ?thesis
    using sm l a b city_series_set [of c v] city_series_labels [of c v] city_series_sorted [of c v] assms(2)
    by simp
qed

theorem rolling_mean_smoothing_witness:
  "(7::nat) < length (city_series ''Pune'' (view_rows (shape week_df [''Pune''] Orders 14 True))) \<and>
   the (smoothed (shape week_df [''Pune''] Orders 14 True)) ! 7 = Some 140 \<and>
   the (smoothed (shape week_df [''Pune''] Orders 14 True)) ! 0 = Some 100"
proof -
  let ?v = "view_rows (shape week_df [''Pune''] Orders 14 True)"
  let ?g = "city_series ''Pune'' ?v"
  let ?xs = "map (\<lambda>(i, r). metric_value Orders r) ?g"
  have g: "?g = enumerate 0 week_df" by (simp only: week_view week_series)
  have k: "(7::nat) < length ?g" by (simp only: g) (simp add: week_df_def)
  have xs: "?xs = [100, 110, 120, 130, 140, 150, 160, 170]"
    by (simp only: g) (simp add: week_df_def mk_record_def metric_value_def enumerate_eq_zip upt_conv_Cons)
  have g7: "fst (?g ! 7) = 7" and g0: "fst (?g ! 0) = 0"
    by (simp_all only: g) (simp_all add: week_df_def nth_enumerate_eq)
  from rolling_mean_smoothing [OF refl refl refl k]
  obtain sm where
    s: "smoothed (shape week_df [''Pune''] Orders 14 True) = Some sm"
       "sm ! fst (?g ! 7) = Some (if (7::nat) < 7 then sum_list (take (Suc 7) ?xs) / real (Suc 7)
                   else sum_list (take 7 (drop (7 - 6) ?xs)) / 7)"
       "sm ! fst (?g ! 0) = Some (?xs ! 0)"
    by blast
  have "sm ! 7 = Some 140" using s(2) by (simp only: g7 xs) simp
  moreover have "sm ! 0 = Some 100" using s(3) by (simp only: g0 xs) simp
  ultimately show ?thesis using k s(1) by simp
qed

end
